theory Spec2Isabelle
  imports Complex_Main "HOL-Library.Word"
begin

unbundle bit_operations_syntax

section \<open>Python values and strings\<close>

text \<open>
  A contact record is the dictionary that the Monica API returns for one contact, read
  from JSON. The attributes that the code looks at hold JSON scalars: \<open>null\<close>, a
  boolean, an integer or a string. Strings are lists of ASCII characters.
\<close>

datatype pyval = PNone | PBool bool | PInt int | PStr string

type_synonym contact = "string \<rightharpoonup> pyval"

datatype error =
    ConnectionError
  | KeyError
  | ValueError
  | TypeError
  | AttributeError
  | JSONError
  | OperationalError

text \<open>Decimal digits of a natural number, as \<open>str\<close> prints a Python int.\<close>

fun digit_char :: "nat \<Rightarrow> char" where
  "digit_char n = char_of (48 + n)"

function decimal :: "nat \<Rightarrow> string" where
  "decimal n = (if n < 10 then [digit_char n] else decimal (n div 10) @ [digit_char (n mod 10)])"
  by pat_completeness auto
termination
  by (relation "measure id") auto

definition str_int :: "int \<Rightarrow> string" where
  "str_int i = (if i < 0 then CHR ''-'' # decimal (nat (- i)) else decimal (nat i))"

text \<open>\<open>str(v)\<close>, which is also what an f-string field \<open>{v}\<close> prints.\<close>

fun py_str :: "pyval \<Rightarrow> string" where
  "py_str PNone = ''None''"
| "py_str (PBool b) = (if b then ''True'' else ''False'')"
| "py_str (PInt i) = str_int i"
| "py_str (PStr s) = s"

text \<open>\<open>bool(v)\<close>: the test of \<open>if v:\<close>.\<close>

fun py_truthy :: "pyval \<Rightarrow> bool" where
  "py_truthy PNone = False"
| "py_truthy (PBool b) = b"
| "py_truthy (PInt i) = (i \<noteq> 0)"
| "py_truthy (PStr s) = (s \<noteq> [])"

text \<open>The ASCII characters for which \<open>str.isspace\<close> holds; \<open>str.strip()\<close> removes them
  at both ends.\<close>

definition is_space :: "char \<Rightarrow> bool" where
  "is_space c = (let n = (of_char c :: nat) in (9 \<le> n \<and> n \<le> 13) \<or> (28 \<le> n \<and> n \<le> 32))"

definition strip :: "string \<Rightarrow> string" where
  "strip s = rev (dropWhile is_space (rev (dropWhile is_space s)))"

definition newline :: char where
  "newline = CHR 0x0A"

text \<open>\<open>sep.join(parts)\<close>.\<close>

fun py_join :: "string \<Rightarrow> string list \<Rightarrow> string" where
  "py_join sep [] = []"
| "py_join sep [p] = p"
| "py_join sep (p # q # ps) = p @ sep @ py_join sep (q # ps)"



section \<open>Text projection (utils/text\_processing.py)\<close>

text \<open>\<open>f"{contact.get(k, '')}"\<close>: the printed value under \<open>k\<close>, the empty string when
  the key is missing.\<close>

definition get_default_str :: "contact \<Rightarrow> string \<Rightarrow> string" where
  "get_default_str c k = (case c k of None \<Rightarrow> [] | Some v \<Rightarrow> py_str v)"

text \<open>\<open>if contact.get(k): parts.append(f"{label}{contact[k]}")\<close>: the part is appended
  when the key is there and its value is truthy.\<close>

definition append_if :: "contact \<Rightarrow> string \<Rightarrow> string \<Rightarrow> string list \<Rightarrow> string list" where
  "append_if c k label parts =
     (case c k of
        None \<Rightarrow> parts
      | Some v \<Rightarrow> if py_truthy v then parts @ [label @ py_str v] else parts)"

definition contact_parts :: "contact \<Rightarrow> string list" where
  "contact_parts c =
     (let parts = [];
          name = strip (get_default_str c ''first_name'' @ '' '' @ get_default_str c ''last_name'');
          parts = (if name \<noteq> [] then parts @ [''Name: '' @ name] else parts);
          parts = append_if c ''job'' ''Job: '' parts;
          parts = append_if c ''company'' ''Company: '' parts;
          parts = append_if c ''email'' ''Email: '' parts;
          parts = append_if c ''phone'' ''Phone: '' parts;
          parts = append_if c ''notes'' ''Notes: '' parts
      in parts)"

definition create_contact_text :: "contact \<Rightarrow> string" where
  "create_contact_text c = py_join [newline] (filter (\<lambda>p. p \<noteq> []) (contact_parts c))"








section \<open>Python dictionaries and slices\<close>

text \<open>
  A \<open>dict\<close> keeps its keys in insertion order, and the order decides how \<open>sorted\<close>
  breaks ties, so the mirror's dictionaries are association lists. \<open>d[k] = v\<close> overwrites
  the value in place when the key is there and appends the pair otherwise.
\<close>

fun dict_set :: "('k \<times> 'v) list \<Rightarrow> 'k \<Rightarrow> 'v \<Rightarrow> ('k \<times> 'v) list" where
  "dict_set [] k v = [(k, v)]"
| "dict_set ((k', v') # d) k v = (if k' = k then (k, v) # d else (k', v') # dict_set d k v)"

text \<open>\<open>d[k]\<close> raises \<open>KeyError\<close> on a missing key.\<close>

definition dict_get :: "('k \<times> 'v) list \<Rightarrow> 'k \<Rightarrow> error + 'v" where
  "dict_get d k = (case map_of d k of None \<Rightarrow> Inl KeyError | Some v \<Rightarrow> Inr v)"

text \<open>\<open>xs[:k]\<close>: a negative \<open>k\<close> counts from the end.\<close>

definition py_take :: "'a list \<Rightarrow> int \<Rightarrow> 'a list" where
  "py_take xs k = (if 0 \<le> k then take (nat k) xs else take (length xs - nat (- k)) xs)"

section \<open>numpy: float32 arrays\<close>

text \<open>
  An embedding is a one-dimensional \<open>float32\<close> array: a list of 32-bit patterns.
  \<open>tobytes\<close> lays the elements out in the machine's byte order, little-endian here;
  \<open>np.frombuffer(b, dtype=np.float32)\<close> reads them back and raises \<open>ValueError\<close> when
  the buffer's size is not a multiple of four.
\<close>

type_synonym byte = "8 word"
type_synonym float32 = "32 word"
type_synonym vector = "float32 list"

definition f32_bytes :: "float32 \<Rightarrow> byte list" where
  "f32_bytes w = [ucast w, ucast (drop_bit 8 w), ucast (drop_bit 16 w), ucast (drop_bit 24 w)]"

definition f32_of_bytes :: "byte \<Rightarrow> byte \<Rightarrow> byte \<Rightarrow> byte \<Rightarrow> float32" where
  "f32_of_bytes b0 b1 b2 b3 =
     ucast b0 OR push_bit 8 (ucast b1) OR push_bit 16 (ucast b2) OR push_bit 24 (ucast b3)"

definition tobytes :: "vector \<Rightarrow> byte list" where
  "tobytes v = concat (map f32_bytes v)"

fun frombuffer :: "byte list \<Rightarrow> error + vector" where
  "frombuffer [] = Inr []"
| "frombuffer (b0 # b1 # b2 # b3 # bs) =
     (case frombuffer bs of Inl e \<Rightarrow> Inl e | Inr v \<Rightarrow> Inr (f32_of_bytes b0 b1 b2 b3 # v))"
| "frombuffer bs = Inl ValueError"

text \<open>
  The value of a float scalar: a real number, an infinity or NaN. Arithmetic follows
  IEEE 754 on the special values (\<open>0/0\<close>, \<open>inf - inf\<close> and \<open>0 * inf\<close> are NaN, NaN
  propagates, every comparison with NaN is false). On finite values it is exact: the
  rounding of a result to \<open>float32\<close>, overflow and underflow are not modelled, and the two
  zeros are one.
\<close>

datatype npfloat = Fin real | PInf | NInf | NaN

definition f32_value :: "float32 \<Rightarrow> npfloat" where
  "f32_value w =
     (let sign = bit w 31;
          e = unat (take_bit 8 (drop_bit 23 w));
          m = unat (take_bit 23 w);
          s = (if sign then - 1 else 1 :: real)
      in if e = 255 then (if m = 0 then (if sign then NInf else PInf) else NaN)
         else if e = 0 then Fin (s * real m / 2 ^ 149)
         else Fin (s * real (2 ^ 23 + m) * 2 ^ e / 2 ^ 150))"

fun fneg :: "npfloat \<Rightarrow> npfloat" where
  "fneg (Fin a) = Fin (- a)"
| "fneg PInf = NInf"
| "fneg NInf = PInf"
| "fneg NaN = NaN"

fun fadd :: "npfloat \<Rightarrow> npfloat \<Rightarrow> npfloat" where
  "fadd NaN y = NaN"
| "fadd x NaN = NaN"
| "fadd (Fin a) (Fin b) = Fin (a + b)"
| "fadd PInf NInf = NaN"
| "fadd NInf PInf = NaN"
| "fadd PInf y = PInf"
| "fadd NInf y = NInf"
| "fadd (Fin a) y = y"

fun fmul :: "npfloat \<Rightarrow> npfloat \<Rightarrow> npfloat" where
  "fmul NaN y = NaN"
| "fmul x NaN = NaN"
| "fmul (Fin a) (Fin b) = Fin (a * b)"
| "fmul (Fin a) y = (if a = 0 then NaN else if 0 < a then y else fneg y)"
| "fmul x (Fin b) = (if b = 0 then NaN else if 0 < b then x else fneg x)"
| "fmul PInf y = y"
| "fmul NInf y = fneg y"

fun fdiv :: "npfloat \<Rightarrow> npfloat \<Rightarrow> npfloat" where
  "fdiv NaN y = NaN"
| "fdiv x NaN = NaN"
| "fdiv (Fin a) (Fin b) =
     (if b = 0 then (if a = 0 then NaN else if 0 < a then PInf else NInf) else Fin (a / b))"
| "fdiv (Fin a) y = Fin 0"
| "fdiv x (Fin b) = (if 0 \<le> b then x else fneg x)"
| "fdiv x y = NaN"

fun fsqrt :: "npfloat \<Rightarrow> npfloat" where
  "fsqrt (Fin a) = (if a < 0 then NaN else Fin (sqrt a))"
| "fsqrt PInf = PInf"
| "fsqrt x = NaN"

text \<open>\<open>x < y\<close> on floats, the comparison that \<open>sorted\<close> uses.\<close>

fun flt :: "npfloat \<Rightarrow> npfloat \<Rightarrow> bool" where
  "flt NaN y = False"
| "flt x NaN = False"
| "flt (Fin a) (Fin b) = (a < b)"
| "flt x NInf = False"
| "flt NInf y = True"
| "flt PInf y = False"
| "flt x PInf = True"

definition fle :: "npfloat \<Rightarrow> npfloat \<Rightarrow> bool" where
  "fle x y = (x \<noteq> NaN \<and> y \<noteq> NaN \<and> \<not> flt y x)"

definition fsum :: "npfloat list \<Rightarrow> npfloat" where
  "fsum xs = foldl fadd (Fin 0) xs"

definition zero_or_nan :: "npfloat \<Rightarrow> bool" where
  "zero_or_nan x = (x = Fin 0 \<or> x = NaN)"

text \<open>\<open>np.dot(a, b)\<close> on one-dimensional arrays: \<open>ValueError\<close> when the shapes differ.\<close>

definition np_dot :: "vector \<Rightarrow> vector \<Rightarrow> error + npfloat" where
  "np_dot a b =
     (if length a \<noteq> length b then Inl ValueError
      else Inr (fsum (map (\<lambda>(x, y). fmul (f32_value x) (f32_value y)) (zip a b))))"

text \<open>\<open>np.linalg.norm(a)\<close>: the 2-norm.\<close>

definition np_norm :: "vector \<Rightarrow> npfloat" where
  "np_norm a = fsqrt (fsum (map (\<lambda>x. fmul (f32_value x) (f32_value x)) a))"

definition zero_vector :: "vector \<Rightarrow> bool" where
  "zero_vector a = list_all (\<lambda>x. f32_value x = Fin 0) a"

text \<open>
  \<open>sorted(items, key=lambda x: x[1], reverse=True)\<close>. Python's sort is stable, also with
  \<open>reverse=True\<close>: where \<open><\<close> orders the keys (no key is NaN), the result is the one
  arrangement in non-increasing key order that keeps items of equal key in their original
  order, which insertion from the right computes. A list of at most one item is returned
  as it is, whatever its key.
\<close>

fun insert_desc :: "('a \<Rightarrow> npfloat) \<Rightarrow> 'a \<Rightarrow> 'a list \<Rightarrow> 'a list" where
  "insert_desc key x [] = [x]"
| "insert_desc key x (y # ys) =
     (if flt (key x) (key y) then y # insert_desc key x ys else x # y # ys)"

definition sorted_desc :: "('a \<Rightarrow> npfloat) \<Rightarrow> 'a list \<Rightarrow> 'a list" where
  "sorted_desc key xs = foldr (insert_desc key) xs []"

section \<open>Embedding store (storage/database.py)\<close>

text \<open>
  One row of the table \<open>embeddings\<close>. The column \<open>contact_id INTEGER PRIMARY KEY\<close> is
  the key of the table: SQLite keeps the rows in the order of that key, holds at most one
  row for each key, and \<open>SELECT\<close> without \<open>ORDER BY\<close> walks them in that order. The
  table is the list of its rows in key order; the database file has the table or not.
\<close>

record row =
  row_embedding :: "byte list"
  row_contact_data :: string
  row_last_updated :: nat

type_synonym table = "(int \<times> row) list"
type_synonym database = "table option"

text \<open>\<open>CREATE TABLE IF NOT EXISTS embeddings (...)\<close>.\<close>

definition setup_database :: "database \<Rightarrow> database" where
  "setup_database db = (case db of None \<Rightarrow> Some [] | Some t \<Rightarrow> Some t)"

text \<open>\<open>INSERT OR REPLACE\<close>: the row that holds the key is deleted and the new one
  takes its place in key order.\<close>

fun insert_or_replace :: "int \<Rightarrow> row \<Rightarrow> table \<Rightarrow> table" where
  "insert_or_replace k r [] = [(k, r)]"
| "insert_or_replace k r ((k', r') # t) =
     (if k < k' then (k, r) # (k', r') # t
      else if k = k' then (k, r) # t
      else (k', r') # insert_or_replace k r t)"

text \<open>
  \<open>json.dumps\<close> and \<open>json.loads\<close> are the standard library's; the store takes them as
  \<open>dumps\<close> and \<open>loads\<close>. \<open>now\<close> is the value of \<open>CURRENT_TIMESTAMP\<close>. The
  arguments of \<open>conn.execute\<close> are evaluated before the statement runs, so a record that
  cannot be serialised raises before the table is touched.
\<close>

definition save_embedding ::
  "(contact \<Rightarrow> error + string) \<Rightarrow> nat \<Rightarrow> database \<Rightarrow> int \<Rightarrow> vector \<Rightarrow> contact \<Rightarrow> error + database"
where
  "save_embedding dumps now db contact_id embedding contact_data =
     (let blob = tobytes embedding in
      case dumps contact_data of
        Inl e \<Rightarrow> Inl e
      | Inr text \<Rightarrow>
          (case db of
             None \<Rightarrow> Inl OperationalError
           | Some t \<Rightarrow>
               Inr (Some (insert_or_replace contact_id
                      \<lparr>row_embedding = blob, row_contact_data = text, row_last_updated = now\<rparr> t))))"

text \<open>The dictionary comprehension of \<open>get_all_embeddings\<close>, row by row.\<close>

fun load_rows ::
  "(string \<Rightarrow> error + contact) \<Rightarrow> table \<Rightarrow> (int \<times> vector \<times> contact) list
     \<Rightarrow> error + (int \<times> vector \<times> contact) list"
where
  "load_rows loads [] acc = Inr acc"
| "load_rows loads ((k, r) # t) acc =
     (case frombuffer (row_embedding r) of
        Inl e \<Rightarrow> Inl e
      | Inr v \<Rightarrow>
          (case loads (row_contact_data r) of
             Inl e \<Rightarrow> Inl e
           | Inr c \<Rightarrow> load_rows loads t (dict_set acc k (v, c))))"

definition get_all_embeddings ::
  "(string \<Rightarrow> error + contact) \<Rightarrow> database \<Rightarrow> error + (int \<times> vector \<times> contact) list"
where
  "get_all_embeddings loads db =
     (case db of None \<Rightarrow> Inl OperationalError | Some t \<Rightarrow> load_rows loads t [])"

text \<open>\<open>SELECT COUNT(*) FROM embeddings\<close>.\<close>

definition select_count :: "database \<Rightarrow> error + nat" where
  "select_count db = (case db of None \<Rightarrow> Inl OperationalError | Some t \<Rightarrow> Inr (length t))"

text \<open>The table's well-formedness: keys strictly ascending, hence one row for each id.\<close>

definition table_ok :: "table \<Rightarrow> bool" where
  "table_ok t = sorted_wrt (<) (map fst t)"

definition entries_for :: "table \<Rightarrow> int \<Rightarrow> row list" where
  "entries_for t k = map snd (filter (\<lambda>(k', r). k' = k) t)"

text \<open>A row decodes when its blob is a whole number of floats and its text is a JSON
  document.\<close>

definition row_decodes :: "(string \<Rightarrow> error + contact) \<Rightarrow> row \<Rightarrow> bool" where
  "row_decodes loads r =
     (\<not> isl (frombuffer (row_embedding r)) \<and> \<not> isl (loads (row_contact_data r)))"

definition store_readable :: "(string \<Rightarrow> error + contact) \<Rightarrow> table \<Rightarrow> bool" where
  "store_readable loads t = list_all (\<lambda>(k, r). row_decodes loads r) t"

definition store_ok :: "database \<Rightarrow> bool" where
  "store_ok db = (case db of None \<Rightarrow> True | Some t \<Rightarrow> table_ok t)"

definition db_entries :: "database \<Rightarrow> int \<Rightarrow> row list" where
  "db_entries db k = (case db of None \<Rightarrow> [] | Some t \<Rightarrow> entries_for t k)"

section \<open>Retrieval engine (models/rag.py)\<close>

datatype api_call = GetContacts | GetContactDetails int

text \<open>
  The state: the path that the storage object holds, the content of the database file
  at that path, the two dictionaries of the mirror, and the requests sent to the Monica
  API so far.
\<close>

record rag =
  db_path :: string
  db :: database
  embeddings :: "(int \<times> vector) list"
  contact_data :: "(int \<times> contact) list"
  api_calls :: "api_call list"

text \<open>
  What an operation meets outside the engine: the answers of the API client
  (\<open>get_contacts\<close>, \<open>get_contact_details\<close>; a failed request raises
  \<open>ConnectionError\<close>), the sentence encoder, the JSON codec and the clock.
\<close>

record env =
  api_get_contacts :: "error + contact list"
  api_get_contact_details :: "int \<Rightarrow> error + contact"
  encode :: "string \<Rightarrow> vector"
  json_dumps :: "contact \<Rightarrow> error + string"
  json_loads :: "string \<Rightarrow> error + contact"
  current_timestamp :: nat

text \<open>\<open>MonicaRAG.__init__\<close>: the storage object runs \<open>setup_database\<close> on the file.\<close>

definition MonicaRAG_init :: "string \<Rightarrow> database \<Rightarrow> rag" where
  "MonicaRAG_init path file =
     \<lparr>db_path = path, db = setup_database file, embeddings = [], contact_data = [], api_calls = []\<rparr>"

text \<open>
  \<open>with self.storage.db_path as conn\<close>: \<open>db_path\<close> is a \<open>str\<close>, which is no context
  manager, so the \<open>with\<close> statement raises (\<open>TypeError\<close>; \<open>AttributeError\<close> before
  Python 3.11) before its body runs.
\<close>

definition with_str :: "string \<Rightarrow> error + database" where
  "with_str path = Inl TypeError"

text \<open>\<open>_has_embeddings\<close>: every exception is caught and answered with \<open>False\<close>.\<close>

definition rag_has_embeddings :: "rag \<Rightarrow> bool" where
  "rag_has_embeddings s =
     (case with_str (db_path s) of
        Inl e \<Rightarrow> False
      | Inr conn \<Rightarrow> (case select_count conn of Inl e \<Rightarrow> False | Inr count \<Rightarrow> 0 < count))"

text \<open>\<open>contact['id']\<close>. Ids are integers; a summary whose id is anything else is not a
  record of the data model, and the model stops there.\<close>

definition contact_id_of :: "contact \<Rightarrow> error + int" where
  "contact_id_of c =
     (case c ''id'' of None \<Rightarrow> Inl KeyError | Some (PInt i) \<Rightarrow> Inr i | Some v \<Rightarrow> Inl TypeError)"

text \<open>The loop of \<open>update_embeddings\<close>. An exception ends it and leaves what the earlier
  iterations and the current one have written.\<close>

fun update_loop :: "env \<Rightarrow> contact list \<Rightarrow> rag \<Rightarrow> (error + unit) \<times> rag" where
  "update_loop ev [] s = (Inr (), s)"
| "update_loop ev (c # cs) s =
     (case contact_id_of c of
        Inl e \<Rightarrow> (Inl e, s)
      | Inr contact_id \<Rightarrow>
          (let s = s\<lparr>api_calls := api_calls s @ [GetContactDetails contact_id]\<rparr> in
           case api_get_contact_details ev contact_id of
             Inl e \<Rightarrow> (Inl e, s)
           | Inr details \<Rightarrow>
               (let text = create_contact_text details;
                    embedding = encode ev text;
                    s = s\<lparr>embeddings := dict_set (embeddings s) contact_id embedding\<rparr>;
                    s = s\<lparr>contact_data := dict_set (contact_data s) contact_id details\<rparr>
                in case save_embedding (json_dumps ev) (current_timestamp ev) (db s)
                          contact_id embedding details of
                     Inl e \<Rightarrow> (Inl e, s)
                   | Inr db' \<Rightarrow> update_loop ev cs (s\<lparr>db := db'\<rparr>))))"

definition update_embeddings :: "env \<Rightarrow> rag \<Rightarrow> (error + unit) \<times> rag" where
  "update_embeddings ev s =
     (let s = s\<lparr>api_calls := api_calls s @ [GetContacts]\<rparr> in
      case api_get_contacts ev of
        Inl e \<Rightarrow> (Inl e, s)
      | Inr contacts \<Rightarrow> update_loop ev contacts s)"

fun load_loop :: "(int \<times> vector \<times> contact) list \<Rightarrow> rag \<Rightarrow> rag" where
  "load_loop [] s = s"
| "load_loop ((contact_id, embedding, cd) # rest) s =
     (let s = s\<lparr>embeddings := dict_set (embeddings s) contact_id embedding\<rparr>;
          s = s\<lparr>contact_data := dict_set (contact_data s) contact_id cd\<rparr>
      in load_loop rest s)"

definition load_from_storage :: "env \<Rightarrow> rag \<Rightarrow> (error + unit) \<times> rag" where
  "load_from_storage ev s =
     (case get_all_embeddings (json_loads ev) (db s) of
        Inl e \<Rightarrow> (Inl e, s)
      | Inr stored_data \<Rightarrow> (Inr (), load_loop stored_data s))"

definition initialize :: "env \<Rightarrow> rag \<Rightarrow> (error + bool) \<times> rag" where
  "initialize ev s =
     (if rag_has_embeddings s
      then (case load_from_storage ev s of
              (Inl e, s') \<Rightarrow> (Inl e, s')
            | (Inr u, s') \<Rightarrow> (Inr True, s'))
      else (case update_embeddings ev s of
              (Inl e, s') \<Rightarrow> (Inl e, s')
            | (Inr u, s') \<Rightarrow> (Inr False, s')))"

text \<open>
  The earlier single-file version (monica\_rag.py) asks the database itself:
  \<open>with sqlite3.connect(self.storage.db_path) as conn\<close>, and catches nothing.
\<close>

definition sqlite3_connect :: "rag \<Rightarrow> error + database" where
  "sqlite3_connect s = Inr (db s)"

definition has_embeddings :: "rag \<Rightarrow> error + bool" where
  "has_embeddings s =
     (case sqlite3_connect s of
        Inl e \<Rightarrow> Inl e
      | Inr conn \<Rightarrow> (case select_count conn of Inl e \<Rightarrow> Inl e | Inr count \<Rightarrow> Inr (0 < count)))"

text \<open>\<open>initialize\<close> with that check in the place of \<open>_has_embeddings\<close>.\<close>

definition initialize_connected :: "env \<Rightarrow> rag \<Rightarrow> (error + bool) \<times> rag" where
  "initialize_connected ev s =
     (case has_embeddings s of
        Inl e \<Rightarrow> (Inl e, s)
      | Inr b \<Rightarrow>
          if b
          then (case load_from_storage ev s of
                  (Inl e, s') \<Rightarrow> (Inl e, s')
                | (Inr u, s') \<Rightarrow> (Inr True, s'))
          else (case update_embeddings ev s of
                  (Inl e, s') \<Rightarrow> (Inl e, s')
                | (Inr u, s') \<Rightarrow> (Inr False, s')))"

subsection \<open>Query\<close>

definition cosine_similarity :: "vector \<Rightarrow> vector \<Rightarrow> error + npfloat" where
  "cosine_similarity q e =
     (case np_dot q e of
        Inl err \<Rightarrow> Inl err
      | Inr d \<Rightarrow> Inr (fdiv d (fmul (np_norm q) (np_norm e))))"

fun similarities_loop ::
  "vector \<Rightarrow> (int \<times> vector) list \<Rightarrow> (int \<times> npfloat) list \<Rightarrow> error + (int \<times> npfloat) list"
where
  "similarities_loop q [] similarities = Inr similarities"
| "similarities_loop q ((contact_id, embedding) # rest) similarities =
     (case cosine_similarity q embedding of
        Inl e \<Rightarrow> Inl e
      | Inr similarity \<Rightarrow> similarities_loop q rest (dict_set similarities contact_id similarity))"

record search_result =
  res_contact :: contact
  res_similarity :: npfloat

fun results_loop ::
  "(int \<times> contact) list \<Rightarrow> (int \<times> npfloat) list \<Rightarrow> search_result list \<Rightarrow> error + search_result list"
where
  "results_loop cd [] results = Inr results"
| "results_loop cd ((contact_id, similarity) # rest) results =
     (case dict_get cd contact_id of
        Inl e \<Rightarrow> Inl e
      | Inr c \<Rightarrow> results_loop cd rest (results @ [\<lparr>res_contact = c, res_similarity = similarity\<rparr>]))"

definition query :: "env \<Rightarrow> rag \<Rightarrow> string \<Rightarrow> int \<Rightarrow> error + search_result list" where
  "query ev s text top_k =
     (let query_embedding = encode ev text in
      case similarities_loop query_embedding (embeddings s) [] of
        Inl e \<Rightarrow> Inl e
      | Inr similarities \<Rightarrow>
          (let top_results = py_take (sorted_desc snd similarities) top_k
           in results_loop (contact_data s) top_results []))"

text \<open>The operations of the engine, and the states that a run of them can reach from a
  fresh \<open>MonicaRAG\<close> object. \<open>query\<close> reads the state and leaves it as it is.\<close>

datatype operation = Initialize | UpdateEmbeddings | Query string int

fun run :: "env \<Rightarrow> operation \<Rightarrow> rag \<Rightarrow> rag" where
  "run ev Initialize s = snd (initialize ev s)"
| "run ev UpdateEmbeddings s = snd (update_embeddings ev s)"
| "run ev (Query text top_k) s = s"

inductive reachable :: "rag \<Rightarrow> bool" where
  fresh: "reachable (MonicaRAG_init path file)"
| step: "reachable s \<Longrightarrow> reachable (run ev oper s)"

text \<open>The mirror as the query needs it: one key list for both dictionaries, no key
  twice, and every stored vector of the encoder's dimension.\<close>

definition mirror_keys_ok :: "rag \<Rightarrow> bool" where
  "mirror_keys_ok s =
     (map fst (embeddings s) = map fst (contact_data s) \<and> distinct (map fst (embeddings s)))"

definition mirror_dim_ok :: "env \<Rightarrow> string \<Rightarrow> rag \<Rightarrow> bool" where
  "mirror_dim_ok ev text s =
     list_all (\<lambda>(k, e). length e = length (encode ev text)) (embeddings s)"

text \<open>The ids of the records that one run of \<open>update_embeddings\<close> fetches.\<close>

definition ids_of :: "contact list \<Rightarrow> int list" where
  "ids_of cs = concat (map (\<lambda>c. case contact_id_of c of Inl e \<Rightarrow> [] | Inr i \<Rightarrow> [i]) cs)"

definition fetched_ids :: "env \<Rightarrow> int list" where
  "fetched_ids ev = (case api_get_contacts ev of Inl e \<Rightarrow> [] | Inr cs \<Rightarrow> ids_of cs)"



section \<open>Example records and states\<close>

definition alice :: contact where
  "alice = [''first_name'' \<mapsto> PStr ''Alice'', ''last_name'' \<mapsto> PStr ''Smith'',
            ''job'' \<mapsto> PStr ''Engineer'', ''company'' \<mapsto> PStr ''Acme'']"

definition bob :: contact where
  "bob = [''first_name'' \<mapsto> PStr ''Bob'', ''last_name'' \<mapsto> PNone, ''email'' \<mapsto> PStr ''bob@example.org'']"



text \<open>A stand-in for the JSON codec that knows the two example records.\<close>

definition stub_dumps :: "contact \<Rightarrow> error + string" where
  "stub_dumps c = (if c ''first_name'' = Some (PStr ''Alice'') then Inr ''A'' else Inr ''B'')"

definition stub_loads :: "string \<Rightarrow> error + contact" where
  "stub_loads t = (if t = ''A'' then Inr alice else if t = ''B'' then Inr bob else Inl JSONError)"

text \<open>The float32 patterns of 1.0 and 0.0, and three vectors.\<close>

definition f32_one :: float32 where
  "f32_one = 0x3F800000"

definition f32_zero :: float32 where
  "f32_zero = 0"

definition vec_10 :: vector where
  "vec_10 = [f32_one, f32_zero]"

definition vec_01 :: vector where
  "vec_01 = [f32_zero, f32_one]"

definition vec_00 :: vector where
  "vec_00 = [f32_zero, f32_zero]"

definition bob_row :: row where
  "bob_row = \<lparr>row_embedding = tobytes vec_01, row_contact_data = ''B'', row_last_updated = 5\<rparr>"

definition alice_row :: row where
  "alice_row = \<lparr>row_embedding = tobytes vec_10, row_contact_data = ''A'', row_last_updated = 7\<rparr>"

text \<open>An API that lists one contact, with id 1, and an engine over a store that
  holds one entry, for id 2.\<close>

definition alice_summary :: contact where
  "alice_summary = [''id'' \<mapsto> PInt 1, ''first_name'' \<mapsto> PStr ''Alice'']"

definition env_one :: env where
  "env_one =
     \<lparr>api_get_contacts = Inr [alice_summary],
      api_get_contact_details = (\<lambda>i. if i = 1 then Inr alice else Inl ConnectionError),
      encode = (\<lambda>t. vec_10),
      json_dumps = stub_dumps,
      json_loads = stub_loads,
      current_timestamp = 7\<rparr>"

definition rag_bob :: rag where
  "rag_bob = MonicaRAG_init ''monica_rag.db'' (Some [(2, bob_row)])"

text \<open>A mirror of two vectors, and a mirror whose one vector is all zeros.\<close>

definition rag_two :: rag where
  "rag_two =
     \<lparr>db_path = ''monica_rag.db'', db = Some [(1, alice_row), (2, bob_row)],
      embeddings = [(1, vec_10), (2, vec_01)], contact_data = [(1, alice), (2, bob)],
      api_calls = []\<rparr>"

definition rag_zero :: rag where
  "rag_zero =
     \<lparr>db_path = ''monica_rag.db'', db = Some [],
      embeddings = [(2, vec_00)], contact_data = [(2, bob)], api_calls = []\<rparr>"

text \<open>An encoder that maps every text to the zero vector.\<close>

definition env_zero :: env where
  "env_zero = env_one\<lparr>encode := (\<lambda>t. vec_00)\<rparr>"


section \<open>The text projection\<close>























section \<open>The embedding store\<close>

lemma f32_of_bytes_f32_bytes:
  "f32_of_bytes (ucast w) (ucast (drop_bit 8 w)) (ucast (drop_bit 16 w)) (ucast (drop_bit 24 w)) = w"
  unfolding f32_of_bytes_def
proof (rule bit_word_eqI)
  fix n
  assume "n < LENGTH(32)"
  then have n: "n < 32" by simp
  consider "n < 8" | "8 \<le> n" "n < 16" | "16 \<le> n" "n < 24" | "24 \<le> n"
    by linarith
  then show "bit (ucast (ucast w :: byte) OR push_bit 8 (ucast (ucast (drop_bit 8 w) :: byte)) OR
                  push_bit 16 (ucast (ucast (drop_bit 16 w) :: byte)) OR
                  push_bit 24 (ucast (ucast (drop_bit 24 w) :: byte)) :: float32) n = bit w n"
    using n by cases (auto simp: bit_simps)
qed

lemma frombuffer_tobytes: "frombuffer (tobytes v) = Inr v"
  by (induction v) (simp_all add: tobytes_def f32_bytes_def f32_of_bytes_f32_bytes)

lemma keys_insert_or_replace:
  "set (map fst (insert_or_replace k r t)) = insert k (set (map fst t))"
  by (induction t) (auto simp: rev_image_eqI split: if_splits)

lemma table_ok_insert_or_replace:
  "table_ok t \<Longrightarrow> table_ok (insert_or_replace k r t)"
  unfolding table_ok_def
proof (induction t)
  case Nil
  then show ?case by simp
next
  case (Cons a t)
  obtain k' r' where a: "a = (k', r')" by (cases a)
  show ?case
    using Cons keys_insert_or_replace [of k r t] by (auto simp: a)
qed

lemma entries_for_other:
  "k' \<noteq> k \<Longrightarrow> entries_for (insert_or_replace k r t) k' = entries_for t k'"
  by (induction t) (auto simp: entries_for_def)

lemma entries_for_absent: "k \<notin> set (map fst t) \<Longrightarrow> entries_for t k = []"
  by (induction t) (auto simp: entries_for_def)

lemma entries_for_same:
  "table_ok t \<Longrightarrow> entries_for (insert_or_replace k r t) k = [r]"
  unfolding table_ok_def
proof (induction t)
  case Nil
  then show ?case by (simp add: entries_for_def)
next
  case (Cons a t)
  obtain k' r' where a: "a = (k', r')" by (cases a)
  have less: "k < k' \<Longrightarrow> entries_for ((k', r') # t) k = []"
    using Cons.prems by (intro entries_for_absent) (auto simp: a)
  have eq: "k = k' \<Longrightarrow> entries_for t k = []"
    using Cons.prems by (intro entries_for_absent) (auto simp: a)
  show ?case
    using Cons less eq by (auto simp: a entries_for_def)
qed

lemma table_ok_one_entry: "table_ok t \<Longrightarrow> length (entries_for t k) \<le> 1"
  unfolding table_ok_def
proof (induction t)
  case Nil
  then show ?case by (simp add: entries_for_def)
next
  case (Cons a t)
  obtain k' r' where a: "a = (k', r')" by (cases a)
  have "k = k' \<Longrightarrow> entries_for t k = []"
    using Cons.prems by (intro entries_for_absent) (auto simp: a)
  then show ?case
    using Cons by (auto simp: a entries_for_def)
qed



lemma keys_dict_set:
  "map fst (dict_set d k v) = (if k \<in> set (map fst d) then map fst d else map fst d @ [k])"
  by (induction d) (auto simp: rev_image_eqI)



lemma load_rows_total:
  "store_readable loads t \<Longrightarrow> \<exists>res. load_rows loads t acc = Inr res"
  by (induction loads t acc rule: load_rows.induct)
    (auto simp: store_readable_def row_decodes_def split: sum.splits)






lemma vec_bytes:
  "tobytes vec_10 = [0, 0, 0x80, 0x3F, 0, 0, 0, 0]" "tobytes vec_01 = [0, 0, 0, 0, 0, 0, 0x80, 0x3F]"
  by (simp_all add: tobytes_def vec_10_def vec_01_def f32_bytes_def f32_one_def f32_zero_def)


lemma save_embedding_store_ok:
  "store_ok d \<Longrightarrow> save_embedding dumps now d k v r = Inr d' \<Longrightarrow> store_ok d'"
  by (auto simp: save_embedding_def store_ok_def table_ok_insert_or_replace
      split: sum.splits option.splits)

lemma save_twice:
  assumes "table_ok t"
    and "save_embedding dumps first_now (Some t) k first_v first_r = Inr first_d"
    and "save_embedding dumps second_now first_d k second_v second_r = Inr second_d"
  shows "\<exists>t2 text2. second_d = Some t2 \<and> dumps second_r = Inr text2 \<and>
           entries_for t2 k =
             [\<lparr>row_embedding = tobytes second_v, row_contact_data = text2, row_last_updated = second_now\<rparr>]"
proof -
  obtain text1 where "dumps first_r = Inr text1"
    using assms(2) by (auto simp: save_embedding_def split: sum.splits)
  then obtain t1 where first_d: "first_d = Some t1" and "table_ok t1"
    using assms(1,2) by (auto simp: save_embedding_def table_ok_insert_or_replace)
  then show ?thesis
    using assms(3) by (auto simp: save_embedding_def entries_for_same split: sum.splits)
qed

text \<open>
  C5. The store holds at most one row for each id after every operation: the table of a
  fresh file is well formed, \<open>setup_database\<close> and \<open>save_embedding\<close> keep it well
  formed, and a well-formed table has at most one row for an id. After two upserts to one
  id the table holds exactly one row for it, with the second upsert's vector bytes, record
  text and timestamp.
\<close>

theorem upsert_one_entry:
  "store_ok (setup_database None) \<and>
   (store_ok d \<longrightarrow> store_ok (setup_database d)) \<and>
   (store_ok d \<and> save_embedding dumps now d k v r = Inr d' \<longrightarrow> store_ok d') \<and>
   (store_ok (Some t) \<longrightarrow> length (entries_for t k) \<le> 1) \<and>
   (table_ok t \<and> save_embedding dumps first_now (Some t) k first_v first_r = Inr first_d \<and>
    save_embedding dumps second_now first_d k second_v second_r = Inr second_d \<longrightarrow>
      (\<exists>t2 text2. second_d = Some t2 \<and> dumps second_r = Inr text2 \<and>
         entries_for t2 k =
           [\<lparr>row_embedding = tobytes second_v, row_contact_data = text2, row_last_updated = second_now\<rparr>]))"
proof -
  have 1: "store_ok (setup_database None)"
    by (simp add: store_ok_def setup_database_def table_ok_def)
  have 2: "store_ok d \<longrightarrow> store_ok (setup_database d)"
    by (simp add: store_ok_def setup_database_def table_ok_def split: option.splits)
  have 3: "store_ok d \<and> save_embedding dumps now d k v r = Inr d' \<longrightarrow> store_ok d'"
    using save_embedding_store_ok by blast
  have 4: "store_ok (Some t) \<longrightarrow> length (entries_for t k) \<le> 1"
    using table_ok_one_entry [of t k] by (simp add: store_ok_def)
  show ?thesis
    using 1 2 3 4 save_twice [of t dumps first_now k first_v first_r first_d second_now second_v second_r second_d] by blast
qed

lemma save_alice:
  "save_embedding stub_dumps 7 (Some [(2, bob_row)]) 2 vec_10 alice = Inr (Some [(2, alice_row)])"
  by (simp add: save_embedding_def stub_dumps_def alice_def alice_row_def)

lemma save_bob:
  "save_embedding stub_dumps 5 (Some [(2, alice_row)]) 2 vec_01 bob = Inr (Some [(2, bob_row)])"
  by (simp add: save_embedding_def stub_dumps_def bob_def bob_row_def)

theorem upsert_one_entry_witness:
  "table_ok [(2, bob_row)] \<and>
   save_embedding stub_dumps 7 (Some [(2, bob_row)]) 2 vec_10 alice = Inr (Some [(2, alice_row)]) \<and>
   save_embedding stub_dumps 5 (Some [(2, alice_row)]) 2 vec_01 bob = Inr (Some [(2, bob_row)]) \<and>
   entries_for [(2, bob_row)] 2 = [bob_row] \<and>
   store_ok (Some [(2, alice_row)]) \<and>
   store_ok (setup_database (Some [(2, alice_row)])) \<and>
   length (entries_for [(2, alice_row)] 2) \<le> 1"
proof -
  have ok: "table_ok [(2, bob_row)]"
    by (simp add: table_ok_def)
  then have sok: "store_ok (Some [(2, bob_row)])"
    by (simp add: store_ok_def)
  note th = upsert_one_entry [where d = "Some [(2, bob_row)]" and dumps = stub_dumps and now = 7
      and k = 2 and v = vec_10 and r = alice and d' = "Some [(2, alice_row)]"]
  have a: "store_ok (Some [(2, alice_row)])"
    using th sok save_alice by blast
  have b: "store_ok (setup_database (Some [(2, alice_row)]))"
    using upsert_one_entry [where d = "Some [(2, alice_row)]"] a by blast
  have c: "length (entries_for [(2, alice_row)] 2) \<le> 1"
    using upsert_one_entry [where t = "[(2, alice_row)]" and k = 2] a by blast
  have d: "entries_for [(2, bob_row)] 2 = [bob_row]"
    using upsert_one_entry [where t = "[(2, bob_row)]" and dumps = stub_dumps and first_now = 7
        and k = 2 and first_v = vec_10 and first_r = alice and first_d = "Some [(2, alice_row)]" and second_now = 5
        and second_v = vec_01 and second_r = bob and second_d = "Some [(2, bob_row)]"]
      ok save_alice save_bob
    by (auto simp: stub_dumps_def bob_def bob_row_def)
  show ?thesis
    using ok save_alice save_bob a b c d by simp
qed


section \<open>The retrieval engine\<close>

lemma save_embedding_other:
  "save_embedding dumps now d k v r = Inr d' \<Longrightarrow> k' \<noteq> k \<Longrightarrow> db_entries d' k' = db_entries d k'"
  by (auto simp: save_embedding_def db_entries_def entries_for_other split: sum.splits option.splits)

lemma entries_for_present: "k \<in> set (map fst t) \<Longrightarrow> entries_for t k \<noteq> []"
  by (induction t) (auto simp: entries_for_def)

lemma save_embedding_keeps:
  "save_embedding dumps now d k v r = Inr d' \<Longrightarrow> db_entries d k' \<noteq> [] \<Longrightarrow> db_entries d' k' \<noteq> []"
proof (cases "k' = k")
  case True
  assume "save_embedding dumps now d k v r = Inr d'"
  then show ?thesis
    using True keys_insert_or_replace
    by (auto simp: save_embedding_def db_entries_def entries_for_present
        split: sum.splits option.splits)
next
  case False
  assume "save_embedding dumps now d k v r = Inr d'" "db_entries d k' \<noteq> []"
  then show ?thesis
    using False save_embedding_other by metis
qed

lemma update_loop_other:
  "k \<notin> set (ids_of cs) \<Longrightarrow> db_entries (db (snd (update_loop ev cs s))) k = db_entries (db s) k"
proof (induction cs arbitrary: s)
  case Nil
  then show ?case by simp
next
  case (Cons c cs)
  show ?case
  proof (cases "contact_id_of c")
    case (Inl e)
    then show ?thesis by simp
  next
    case (Inr i)
    then have k: "k \<noteq> i" "k \<notin> set (ids_of cs)"
      using Cons.prems by (auto simp: ids_of_def)
    show ?thesis
      using Inr k Cons.IH save_embedding_other [where k' = k and k = i]
      by (auto simp: Let_def split: sum.splits)
  qed
qed

lemma update_loop_keeps:
  "db_entries (db s) k \<noteq> [] \<Longrightarrow> db_entries (db (snd (update_loop ev cs s))) k \<noteq> []"
proof (induction cs arbitrary: s)
  case Nil
  then show ?case by simp
next
  case (Cons c cs)
  show ?case
  proof (cases "contact_id_of c")
    case (Inl e)
    then show ?thesis using Cons.prems by simp
  next
    case (Inr i)
    show ?thesis
      using Inr Cons save_embedding_keeps [where k' = k and k = i]
      by (auto simp: Let_def split: sum.splits)
  qed
qed

text \<open>
  C6. \<open>update_embeddings\<close>, finished or ended by an exception, leaves the rows of every
  id that is not among the fetched ids as they were, and an id that had a row has one
  afterwards: no entry is deleted.
\<close>

theorem update_keeps_other_entries:
  "(k \<notin> set (fetched_ids ev) \<longrightarrow>
      db_entries (db (snd (update_embeddings ev s))) k = db_entries (db s) k) \<and>
   (db_entries (db s) k \<noteq> [] \<longrightarrow> db_entries (db (snd (update_embeddings ev s))) k \<noteq> [])"
  using update_loop_other [of k _ ev "s\<lparr>api_calls := api_calls s @ [GetContacts]\<rparr>"]
    update_loop_keeps [of "s\<lparr>api_calls := api_calls s @ [GetContacts]\<rparr>" k ev]
  by (auto simp: update_embeddings_def fetched_ids_def Let_def split: sum.splits)

lemma update_rag_bob:
  "update_embeddings env_one rag_bob =
     (Inr (), \<lparr>db_path = ''monica_rag.db'', db = Some [(1, alice_row), (2, bob_row)],
                embeddings = [(1, vec_10)], contact_data = [(1, alice)],
                api_calls = [GetContacts, GetContactDetails 1]\<rparr>)"
  by (simp add: update_embeddings_def env_one_def rag_bob_def MonicaRAG_init_def setup_database_def
      contact_id_of_def alice_summary_def save_embedding_def stub_dumps_def alice_def alice_row_def)

theorem update_keeps_other_entries_witness:
  "2 \<notin> set (fetched_ids env_one) \<and> db_entries (db rag_bob) 2 = [bob_row] \<and>
   db_entries (db (snd (update_embeddings env_one rag_bob))) 2 = [bob_row]"
proof -
  have 1: "2 \<notin> set (fetched_ids env_one)"
    by (simp add: fetched_ids_def env_one_def ids_of_def contact_id_of_def alice_summary_def)
  have 2: "db_entries (db rag_bob) 2 = [bob_row]"
    by (simp add: rag_bob_def MonicaRAG_init_def setup_database_def db_entries_def entries_for_def)
  show ?thesis
    using update_keeps_other_entries [of 2 env_one rag_bob] 1 2 by simp
qed

lemma distinct_dict_set:
  "distinct (map fst d) \<Longrightarrow> distinct (map fst (dict_set d k v))"
  by (simp add: keys_dict_set)

lemma mirror_keys_ok_set:
  assumes "mirror_keys_ok s"
  shows "mirror_keys_ok
           (s\<lparr>embeddings := dict_set (embeddings s) k e,
               contact_data := dict_set (contact_data s) k c\<rparr>)"
  using assms by (auto simp: mirror_keys_ok_def keys_dict_set)

lemma update_loop_mirror:
  "mirror_keys_ok s \<Longrightarrow> mirror_keys_ok (snd (update_loop ev cs s))"
proof (induction cs arbitrary: s)
  case Nil
  then show ?case by simp
next
  case (Cons c cs)
  show ?case
  proof (cases "contact_id_of c")
    case (Inl e)
    then show ?thesis using Cons.prems by simp
  next
    case (Inr i)
    have ok: "mirror_keys_ok
        (s\<lparr>api_calls := api_calls s @ [GetContactDetails i],
           embeddings := dict_set (embeddings s) i e,
           contact_data := dict_set (contact_data s) i d, db := b\<rparr>)" for e d b
      using Cons.prems by (auto simp: mirror_keys_ok_def keys_dict_set)
    have ok': "mirror_keys_ok
        (s\<lparr>api_calls := api_calls s @ [GetContactDetails i],
           embeddings := dict_set (embeddings s) i e,
           contact_data := dict_set (contact_data s) i d\<rparr>)" for e d
      using Cons.prems by (auto simp: mirror_keys_ok_def keys_dict_set)
    have ok'': "mirror_keys_ok (s\<lparr>api_calls := api_calls s @ [GetContactDetails i]\<rparr>)"
      using Cons.prems by (auto simp: mirror_keys_ok_def)
    show ?thesis
      using Inr Cons.IH ok ok' ok''
      by (auto simp: Let_def split: sum.splits)
  qed
qed

lemma load_loop_mirror:
  "mirror_keys_ok s \<Longrightarrow> mirror_keys_ok (load_loop stored s)"
proof (induction stored s rule: load_loop.induct)
  case (1 s)
  then show ?case by simp
next
  case (2 contact_id embedding cd rest s)
  have "mirror_keys_ok
      (s\<lparr>embeddings := dict_set (embeddings s) contact_id embedding,
         contact_data := dict_set (contact_data s) contact_id cd\<rparr>)"
    using 2(2) by (rule mirror_keys_ok_set)
  then show ?case
    using 2(1) by (simp add: Let_def)
qed

lemma update_embeddings_mirror:
  "mirror_keys_ok s \<Longrightarrow> mirror_keys_ok (snd (update_embeddings ev s))"
proof -
  assume "mirror_keys_ok s"
  then have "mirror_keys_ok (s\<lparr>api_calls := api_calls s @ [GetContacts]\<rparr>)"
    by (auto simp: mirror_keys_ok_def)
  then show ?thesis
    using update_loop_mirror [of "s\<lparr>api_calls := api_calls s @ [GetContacts]\<rparr>" ev]
    by (auto simp: update_embeddings_def Let_def split: sum.splits)
qed

lemma load_from_storage_mirror:
  "mirror_keys_ok s \<Longrightarrow> mirror_keys_ok (snd (load_from_storage ev s))"
  by (auto simp: load_from_storage_def load_loop_mirror split: sum.splits)

lemma initialize_mirror:
  "mirror_keys_ok s \<Longrightarrow> mirror_keys_ok (snd (initialize ev s))"
  using update_embeddings_mirror [of s ev] load_from_storage_mirror [of s ev]
  by (auto simp: initialize_def split: prod.splits sum.splits)

lemma reachable_mirror: "reachable s \<Longrightarrow> mirror_keys_ok s"
proof (induction rule: reachable.induct)
  case (fresh path fl)
  then show ?case by (simp add: MonicaRAG_init_def mirror_keys_ok_def)
next
  case (step s ev oper)
  then show ?case
    by (cases oper) (simp_all add: initialize_mirror update_embeddings_mirror)
qed

lemma dict_get_present: "k \<in> set (map fst d) \<Longrightarrow> \<exists>v. dict_get d k = Inr v"
  by (cases "map_of d k") (auto simp: dict_get_def map_of_eq_None_iff)

text \<open>
  C9. In every state that construction followed by any run of \<open>initialize\<close>,
  \<open>update_embeddings\<close> and \<open>query\<close> reaches, the two dictionaries of the mirror have the
  same key set, and every id that has a vector has a record.
\<close>

theorem mirror_key_sets_equal:
  "reachable s \<Longrightarrow>
     set (map fst (embeddings s)) = set (map fst (contact_data s)) \<and>
     (\<forall>k\<in>set (map fst (embeddings s)). \<exists>c. dict_get (contact_data s) k = Inr c)"
proof -
  assume "reachable s"
  then have "map fst (embeddings s) = map fst (contact_data s)"
    using reachable_mirror by (simp add: mirror_keys_ok_def)
  then show ?thesis
    using dict_get_present [of _ "contact_data s"] by simp
qed

lemma run_update_rag_bob:
  "run env_one UpdateEmbeddings rag_bob =
     \<lparr>db_path = ''monica_rag.db'', db = Some [(1, alice_row), (2, bob_row)],
      embeddings = [(1, vec_10)], contact_data = [(1, alice)],
      api_calls = [GetContacts, GetContactDetails 1]\<rparr>"
  by (simp add: update_rag_bob)

theorem mirror_key_sets_equal_witness:
  "reachable (run env_one UpdateEmbeddings rag_bob) \<and>
   map fst (embeddings (run env_one UpdateEmbeddings rag_bob)) = [1] \<and>
   set (map fst (contact_data (run env_one UpdateEmbeddings rag_bob))) = {1} \<and>
   (\<exists>c. dict_get (contact_data (run env_one UpdateEmbeddings rag_bob)) 1 = Inr c)"
proof -
  have r: "reachable (run env_one UpdateEmbeddings rag_bob)"
    unfolding rag_bob_def by (intro reachable.intros)
  show ?thesis
    using mirror_key_sets_equal [OF r] r unfolding run_update_rag_bob by simp
qed

lemma rag_has_embeddings_False: "rag_has_embeddings s = False"
  by (simp add: rag_has_embeddings_def with_str_def)

lemma initialize_always_builds:
  "initialize ev s =
     (case update_embeddings ev s of (Inl e, s') \<Rightarrow> (Inl e, s') | (Inr u, s') \<Rightarrow> (Inr False, s'))"
  by (simp add: initialize_def rag_has_embeddings_False)

lemma update_embeddings_calls_api:
  "api_calls (snd (update_embeddings ev s)) \<noteq> api_calls s"
proof -
  have "length (api_calls s) < length (api_calls (snd (update_loop ev cs s')))"
    if "length (api_calls s) < length (api_calls s')" for cs s'
    using that
  proof (induction cs arbitrary: s')
    case Nil
    then show ?case by simp
  next
    case (Cons c cs)
    show ?case
    proof (cases "contact_id_of c")
      case (Inl e)
      then show ?thesis using Cons.prems by simp
    next
      case (Inr i)
      show ?thesis
        using Inr Cons.prems Cons.IH by (auto simp: Let_def split: sum.splits)
    qed
  qed
  from this [of "s\<lparr>api_calls := api_calls s @ [GetContacts]\<rparr>"]
  have "length (api_calls s) < length (api_calls (snd (update_embeddings ev s)))"
    by (auto simp: update_embeddings_def Let_def split: sum.splits)
  then show ?thesis by auto
qed

lemma initialize_never_loads:
  "fst (initialize ev s) \<noteq> Inr True \<and> api_calls (snd (initialize ev s)) \<noteq> api_calls s"
  using update_embeddings_calls_api [of ev s]
  by (auto simp: initialize_always_builds split: prod.splits sum.splits)

lemma load_loop_frame: "api_calls (load_loop stored s) = api_calls s \<and> db (load_loop stored s) = db s"
  by (induction stored s rule: load_loop.induct) (simp_all add: Let_def)

lemma initialize_connected_loads:
  assumes "db s = Some t" and "t \<noteq> []" and "store_readable (json_loads ev) t"
  shows "\<exists>stored. get_all_embeddings (json_loads ev) (db s) = Inr stored \<and>
           initialize_connected ev s = (Inr True, load_loop stored s) \<and>
           api_calls (load_loop stored s) = api_calls s"
proof -
  obtain stored where "load_rows (json_loads ev) t [] = Inr stored"
    using assms(3) load_rows_total by blast
  then show ?thesis
    using assms(1,2)
    by (simp add: initialize_connected_def has_embeddings_def sqlite3_connect_def select_count_def
        load_from_storage_def get_all_embeddings_def load_loop_frame)
qed

lemma initialize_connected_builds:
  "db s = Some [] \<Longrightarrow>
   initialize_connected ev s =
     (case update_embeddings ev s of (Inl e, s') \<Rightarrow> (Inl e, s') | (Inr u, s') \<Rightarrow> (Inr False, s'))"
  by (simp add: initialize_connected_def has_embeddings_def sqlite3_connect_def select_count_def)

text \<open>
  C1 fails on models/rag.py. The store holds one entry, for id 2. \<open>initialize\<close> does
  not load it: it asks the API for the contacts, builds the mirror from them (id 1 only)
  and returns \<open>False\<close>. With the check of monica\_rag.py in the place of
  \<open>_has_embeddings\<close> the same call loads the entry, sends no request and returns
  \<open>True\<close>.
\<close>

theorem initialize_ignores_store:
  "select_count (db rag_bob) = Inr 1 \<and>
   initialize env_one rag_bob =
     (Inr False,
      \<lparr>db_path = ''monica_rag.db'', db = Some [(1, alice_row), (2, bob_row)],
       embeddings = [(1, vec_10)], contact_data = [(1, alice)],
       api_calls = [GetContacts, GetContactDetails 1]\<rparr>) \<and>
   initialize_connected env_one rag_bob =
     (Inr True,
      \<lparr>db_path = ''monica_rag.db'', db = Some [(2, bob_row)],
       embeddings = [(2, vec_01)], contact_data = [(2, bob)], api_calls = []\<rparr>)"
proof -
  have 1: "select_count (db rag_bob) = Inr 1"
    by (simp add: rag_bob_def MonicaRAG_init_def setup_database_def select_count_def)
  have 2: "initialize env_one rag_bob =
     (Inr False,
      \<lparr>db_path = ''monica_rag.db'', db = Some [(1, alice_row), (2, bob_row)],
       embeddings = [(1, vec_10)], contact_data = [(1, alice)],
       api_calls = [GetContacts, GetContactDetails 1]\<rparr>)"
    by (simp add: initialize_always_builds update_rag_bob)
  have "get_all_embeddings (json_loads env_one) (db rag_bob) = Inr [(2, vec_01, bob)]"
    by (simp add: get_all_embeddings_def rag_bob_def MonicaRAG_init_def setup_database_def
        env_one_def bob_row_def frombuffer_tobytes stub_loads_def)
  then have 3: "initialize_connected env_one rag_bob =
     (Inr True,
      \<lparr>db_path = ''monica_rag.db'', db = Some [(2, bob_row)],
       embeddings = [(2, vec_01)], contact_data = [(2, bob)], api_calls = []\<rparr>)"
    using 1
    by (simp add: initialize_connected_def has_embeddings_def sqlite3_connect_def
        load_from_storage_def Let_def)
      (simp add: rag_bob_def MonicaRAG_init_def setup_database_def)
  show ?thesis
    using 1 2 3 by simp
qed

text \<open>
  C8. With no vector in the mirror, \<open>query\<close> returns the empty list for every text and
  every \<open>top_k\<close>: it raises nothing.
\<close>

theorem query_empty_mirror:
  "embeddings s = [] \<Longrightarrow> query ev s text top_k = Inr []"
  by (simp add: query_def sorted_desc_def py_take_def)

theorem query_empty_mirror_witness:
  "embeddings rag_bob = [] \<and> query env_one rag_bob ''who works in tech'' (- 3) = Inr []"
proof -
  have "embeddings rag_bob = []"
    by (simp add: rag_bob_def MonicaRAG_init_def)
  then show ?thesis
    using query_empty_mirror [of rag_bob env_one "''who works in tech''" "- 3"] by simp
qed

section \<open>Query\<close>

lemma f32_value_one: "f32_value f32_one = Fin 1"
  by (simp add: f32_value_def f32_one_def)

lemma f32_value_zero: "f32_value f32_zero = Fin 0"
  by (simp add: f32_value_def f32_zero_def)

lemma cos_10_10: "cosine_similarity vec_10 vec_10 = Inr (Fin 1)"
  by (simp add: cosine_similarity_def np_dot_def np_norm_def fsum_def vec_10_def f32_value_one f32_value_zero)

lemma cos_10_01: "cosine_similarity vec_10 vec_01 = Inr (Fin 0)"
  by (simp add: cosine_similarity_def np_dot_def np_norm_def fsum_def vec_10_def vec_01_def f32_value_one f32_value_zero)

lemma cos_10_00: "cosine_similarity vec_10 vec_00 = Inr NaN"
  by (simp add: cosine_similarity_def np_dot_def np_norm_def fsum_def vec_10_def vec_00_def f32_value_one f32_value_zero)


lemma dict_set_append: "k \<notin> set (map fst d) \<Longrightarrow> dict_set d k v = d @ [(k, v)]"
  by (induction d) auto

lemma cosine_similarity_defined: "length e = length q \<Longrightarrow> \<exists>x. cosine_similarity q e = Inr x"
  by (simp add: cosine_similarity_def np_dot_def)

lemma similarities_loop_ok:
  "list_all (\<lambda>(k, e). length e = length q) embs \<Longrightarrow> distinct (map fst acc @ map fst embs) \<Longrightarrow>
   \<exists>sims. similarities_loop q embs acc = Inr (acc @ sims) \<and>
     list_all2 (\<lambda>(k, x) (k', e). k = k' \<and> cosine_similarity q e = Inr x) sims embs"
proof (induction q embs acc rule: similarities_loop.induct)
  case (1 q similarities)
  then show ?case by simp
next
  case (2 q contact_id embedding rest similarities)
  obtain x where x: "cosine_similarity q embedding = Inr x"
    using 2(2) cosine_similarity_defined [of embedding q] by auto
  have new: "dict_set similarities contact_id x = similarities @ [(contact_id, x)]"
    using 2(3) by (intro dict_set_append) auto
  have "distinct (map fst (dict_set similarities contact_id x) @ map fst rest)"
    using 2(3) by (simp add: new)
  then obtain sims where
    "similarities_loop q rest (dict_set similarities contact_id x) =
       Inr (dict_set similarities contact_id x @ sims)"
    "list_all2 (\<lambda>(k, x) (k', e). k = k' \<and> cosine_similarity q e = Inr x) sims rest"
    using 2(1) [OF x] 2(2) by auto
  then show ?case
    using x by (auto simp: new intro!: exI [of _ "(contact_id, x) # sims"])
qed

lemma results_loop_ok:
  "set (map fst xs) \<subseteq> set (map fst cd) \<Longrightarrow>
   \<exists>rs. results_loop cd xs acc = Inr (acc @ rs) \<and> map res_similarity rs = map snd xs"
proof (induction cd xs acc rule: results_loop.induct)
  case (1 cd results)
  then show ?case by simp
next
  case (2 cd contact_id similarity rest results)
  obtain c where c: "dict_get cd contact_id = Inr c"
    using 2(2) dict_get_present [of contact_id cd] by auto
  obtain rs where
    "results_loop cd rest (results @ [\<lparr>res_contact = c, res_similarity = similarity\<rparr>]) =
       Inr ((results @ [\<lparr>res_contact = c, res_similarity = similarity\<rparr>]) @ rs)"
    "map res_similarity rs = map snd rest"
    using 2(1) [OF c] 2(2) by auto
  then show ?case
    using c by (auto intro!: exI [of _ "\<lparr>res_contact = c, res_similarity = similarity\<rparr> # rs"])
qed

lemma results_loop_extends:
  "results_loop cd xs acc = Inr rs \<Longrightarrow>
   \<exists>rs'. rs = acc @ rs' \<and> map res_similarity rs' = map snd xs"
proof (induction cd xs acc arbitrary: rs rule: results_loop.induct)
  case (1 cd results)
  then show ?case by simp
next
  case (2 cd contact_id similarity rest results)
  then obtain c where c: "dict_get cd contact_id = Inr c"
    by (cases "dict_get cd contact_id") auto
  then obtain rs' where
    "rs = (results @ [\<lparr>res_contact = c, res_similarity = similarity\<rparr>]) @ rs'"
    "map res_similarity rs' = map snd rest"
    using 2 by fastforce
  then show ?case
    by (auto intro!: exI [of _ "\<lparr>res_contact = c, res_similarity = similarity\<rparr> # rs'"])
qed

lemma results_loop_append:
  "results_loop cd (xs @ ys) acc =
     (case results_loop cd xs acc of Inl e \<Rightarrow> Inl e | Inr r \<Rightarrow> results_loop cd ys r)"
  by (induction cd xs acc rule: results_loop.induct) (auto split: sum.splits)

lemma results_loop_take:
  assumes "results_loop cd xs [] = Inr full"
  shows "results_loop cd (take n xs) [] = Inr (take n full)"
proof -
  have "results_loop cd (take n xs @ drop n xs) [] = Inr full"
    using assms by simp
  then obtain r where r: "results_loop cd (take n xs) [] = Inr r"
    and rest: "results_loop cd (drop n xs) r = Inr full"
    unfolding results_loop_append by (auto split: sum.splits)
  obtain r' where "full = r @ r'" "map res_similarity r' = map snd (drop n xs)"
    using results_loop_extends [OF rest] by auto
  moreover have "map res_similarity r = map snd (take n xs)"
    using results_loop_extends [OF r] by auto
  ultimately have "length r = min n (length xs)" "length r' = length xs - n" "full = r @ r'"
    using length_map [of res_similarity r] length_map [of res_similarity r'] by auto
  then have "take n full = r"
    by (cases "n \<le> length xs") auto
  then show ?thesis
    using r by simp
qed

lemma length_insert_desc: "length (insert_desc key x xs) = Suc (length xs)"
  by (induction xs) auto

lemma length_sorted_desc: "length (sorted_desc key xs) = length xs"
  by (induction xs) (auto simp: sorted_desc_def length_insert_desc)

lemma set_insert_desc: "set (insert_desc key x xs) = insert x (set xs)"
  by (induction xs) auto

lemma set_sorted_desc: "set (sorted_desc key xs) = set xs"
  by (induction xs) (auto simp: sorted_desc_def set_insert_desc)

lemma set_py_take: "set (py_take xs k) \<subseteq> set xs"
  by (auto simp: py_take_def dest: in_set_takeD)


lemma list_all2_keys:
  "list_all2 (\<lambda>(k, x) (k', e). k = k' \<and> P x e) sims embs \<Longrightarrow> map fst sims = map fst embs"
  by (induction sims embs rule: list_all2_induct) auto

lemma query_ok:
  assumes "mirror_keys_ok s" and "mirror_dim_ok ev text s"
  shows "\<exists>sims. similarities_loop (encode ev text) (embeddings s) [] = Inr sims \<and>
           list_all2 (\<lambda>(k, x) (k', e). k = k' \<and> cosine_similarity (encode ev text) e = Inr x)
             sims (embeddings s) \<and>
           (\<forall>k. \<exists>rs. query ev s text k = Inr rs \<and>
                  results_loop (contact_data s) (py_take (sorted_desc snd sims) k) [] = Inr rs \<and>
                  map res_similarity rs = map snd (py_take (sorted_desc snd sims) k))"
proof -
  obtain sims where sims: "similarities_loop (encode ev text) (embeddings s) [] = Inr sims"
    and rel: "list_all2 (\<lambda>(k, x) (k', e). k = k' \<and> cosine_similarity (encode ev text) e = Inr x)
                sims (embeddings s)"
    using similarities_loop_ok [of "encode ev text" "embeddings s" "[]"] assms
    by (auto simp: mirror_keys_ok_def mirror_dim_ok_def)
  have keys: "map fst sims = map fst (contact_data s)"
    using list_all2_keys [OF rel] assms(1) by (simp add: mirror_keys_ok_def)
  have "\<exists>rs. query ev s text k = Inr rs \<and>
          results_loop (contact_data s) (py_take (sorted_desc snd sims) k) [] = Inr rs \<and>
          map res_similarity rs = map snd (py_take (sorted_desc snd sims) k)" for k
  proof -
    have "set (map fst (py_take (sorted_desc snd sims) k)) \<subseteq> set (map fst sims)"
      using set_py_take [of "sorted_desc snd sims" k] by (auto simp: set_sorted_desc)
    then have "set (map fst (py_take (sorted_desc snd sims) k)) \<subseteq> set (map fst (contact_data s))"
      by (simp only: keys)
    then show ?thesis
      using results_loop_ok [of "py_take (sorted_desc snd sims) k" "contact_data s" "[]"] sims
      by (auto simp: query_def Let_def)
  qed
  then show ?thesis
    using sims rel by blast
qed

lemma flt_asym: "flt a b \<Longrightarrow> \<not> flt b a"
  by (cases a; cases b) auto


lemma fle_total: "a \<noteq> NaN \<Longrightarrow> b \<noteq> NaN \<Longrightarrow> \<not> flt a b \<Longrightarrow> fle b a"
  by (simp add: fle_def)







lemma sims_rag_two:
  "similarities_loop (encode env_one t) (embeddings rag_two) [] = Inr [(1, Fin 1), (2, Fin 0)]"
  by (simp add: env_one_def rag_two_def cos_10_10 cos_10_01)


lemma query_rag_two_2:
  "query env_one rag_two t 2 =
     Inr [\<lparr>res_contact = alice, res_similarity = Fin 1\<rparr>, \<lparr>res_contact = bob, res_similarity = Fin 0\<rparr>]"
  by (simp add: query_def sims_rag_two sorted_desc_def py_take_def)
    (simp add: rag_two_def dict_get_def)


lemma rag_two_keys: "mirror_keys_ok rag_two"
  by (simp add: mirror_keys_ok_def rag_two_def)

lemma rag_two_dim: "mirror_dim_ok env_one t rag_two"
  by (simp add: mirror_dim_ok_def rag_two_def env_one_def vec_10_def vec_01_def)



text \<open>
  C10 (amended). On a well-formed mirror of N vectors \<open>query(text, 0)\<close> returns the
  empty list, and for \<open>0 < m \<le> N\<close> \<open>query(text, -m)\<close> returns the first \<open>N - m\<close>
  results of the full ranking \<open>query(text, N)\<close>: all but the last m, hence a non-empty
  list when \<open>m < N\<close> and the empty list when \<open>m = N\<close>. It never raises.
\<close>

theorem query_nonpositive_top_k:
  assumes "mirror_keys_ok s" and "mirror_dim_ok ev text s"
  shows "\<exists>full. query ev s text (int (length (embeddings s))) = Inr full \<and>
           length full = length (embeddings s) \<and>
           query ev s text 0 = Inr [] \<and>
           (\<forall>m. 0 < m \<and> m \<le> length (embeddings s) \<longrightarrow>
              query ev s text (- int m) = Inr (take (length (embeddings s) - m) full) \<and>
              length (take (length (embeddings s) - m) full) = length (embeddings s) - m)"
proof -
  obtain sims where
    rel: "list_all2 (\<lambda>(k, x) (k', e). k = k' \<and> cosine_similarity (encode ev text) e = Inr x)
            sims (embeddings s)"
    and q: "\<And>k. \<exists>rs. query ev s text k = Inr rs \<and>
              results_loop (contact_data s) (py_take (sorted_desc snd sims) k) [] = Inr rs \<and>
              map res_similarity rs = map snd (py_take (sorted_desc snd sims) k)"
    using query_ok [OF assms] by blast
  define n where "n = length (embeddings s)"
  have len: "length (sorted_desc snd sims) = n"
    using list_all2_lengthD [OF rel] by (simp add: length_sorted_desc n_def)
  obtain full where full: "query ev s text (int n) = Inr full"
    and loop: "results_loop (contact_data s) (py_take (sorted_desc snd sims) (int n)) [] = Inr full"
    and m: "map res_similarity full = map snd (py_take (sorted_desc snd sims) (int n))"
    using q [of "int n"] by blast
  have all: "py_take (sorted_desc snd sims) (int n) = sorted_desc snd sims"
    using len by (simp add: py_take_def)
  have lf: "length full = n"
    using m length_map [of res_similarity full] len by (simp add: all)
  have zero: "query ev s text 0 = Inr []"
    using q [of 0] by (auto simp: py_take_def)
  have neg: "query ev s text (- int m) = Inr (take (n - m) full)" if "0 < m" "m \<le> n" for m
  proof -
    have "py_take (sorted_desc snd sims) (- int m) = take (n - m) (sorted_desc snd sims)"
      using that len by (simp add: py_take_def)
    moreover have "results_loop (contact_data s) (take (n - m) (sorted_desc snd sims)) [] =
        Inr (take (n - m) full)"
      using loop unfolding all by (rule results_loop_take)
    ultimately show ?thesis
      using q [of "- int m"] by auto
  qed
  show ?thesis
    using full lf zero neg unfolding n_def by (intro exI [of _ full]) auto
qed

text \<open>
  C10 as stated fails at \<open>m = N\<close>: on a mirror of two vectors \<open>query(text, -2)\<close>
  returns the empty list.
\<close>

theorem query_nonpositive_top_k_counterexample:
  "length (embeddings rag_two) = 2 \<and> query env_one rag_two ''who works in tech'' (- 2) = Inr []"
  by (simp add: query_def sims_rag_two sorted_desc_def py_take_def) (simp add: rag_two_def)

theorem query_nonpositive_top_k_witness:
  "mirror_keys_ok rag_two \<and> mirror_dim_ok env_one ''who works in tech'' rag_two \<and>
   (0::nat) < 1 \<and> 1 \<le> length (embeddings rag_two) \<and>
   query env_one rag_two ''who works in tech'' 0 = Inr [] \<and>
   query env_one rag_two ''who works in tech'' (- 1) =
     Inr [\<lparr>res_contact = alice, res_similarity = Fin 1\<rparr>]"
proof -
  have n: "length (embeddings rag_two) = 2"
    by (simp add: rag_two_def)
  obtain full where full: "query env_one rag_two ''who works in tech'' 2 = Inr full"
    and zero: "query env_one rag_two ''who works in tech'' 0 = Inr []"
    and neg: "\<And>m. 0 < m \<and> m \<le> 2 \<Longrightarrow>
        query env_one rag_two ''who works in tech'' (- int m) = Inr (take (2 - m) full)"
    using query_nonpositive_top_k [OF rag_two_keys rag_two_dim, of "''who works in tech''"]
    unfolding n by auto
  have "full = [\<lparr>res_contact = alice, res_similarity = Fin 1\<rparr>, \<lparr>res_contact = bob, res_similarity = Fin 0\<rparr>]"
    using full by (simp add: query_rag_two_2)
  then have "query env_one rag_two ''who works in tech'' (- 1) =
      Inr [\<lparr>res_contact = alice, res_similarity = Fin 1\<rparr>]"
    using neg [of 1] by simp
  then show ?thesis
    using zero n rag_two_keys rag_two_dim by simp
qed

lemma fadd_zero_or_nan: "zero_or_nan x \<Longrightarrow> zero_or_nan y \<Longrightarrow> zero_or_nan (fadd x y)"
  by (auto simp: zero_or_nan_def)

lemma fmul_zero_right: "zero_or_nan (fmul x (Fin 0))"
  by (cases x) (auto simp: zero_or_nan_def)

lemma fmul_zero_left: "zero_or_nan (fmul (Fin 0) x)"
  by (cases x) (auto simp: zero_or_nan_def)

lemma foldl_zero_or_nan:
  "zero_or_nan a \<Longrightarrow> \<forall>x\<in>set xs. zero_or_nan x \<Longrightarrow> zero_or_nan (foldl fadd a xs)"
  by (induction xs arbitrary: a) (auto simp: fadd_zero_or_nan)

lemma fsum_zero_or_nan: "\<forall>x\<in>set xs. zero_or_nan x \<Longrightarrow> zero_or_nan (fsum xs)"
  unfolding fsum_def by (rule foldl_zero_or_nan) (simp_all add: zero_or_nan_def)

lemma foldl_zero: "\<forall>x\<in>set xs. x = Fin 0 \<Longrightarrow> foldl fadd (Fin 0) xs = Fin 0"
  by (induction xs) auto

lemma np_norm_zero: "zero_vector e \<Longrightarrow> np_norm e = Fin 0"
proof -
  assume "zero_vector e"
  then have "\<forall>x\<in>set (map (\<lambda>x. fmul (f32_value x) (f32_value x)) e). x = Fin 0"
    by (auto simp: zero_vector_def list_all_iff)
  then have "fsum (map (\<lambda>x. fmul (f32_value x) (f32_value x)) e) = Fin 0"
    unfolding fsum_def by (rule foldl_zero)
  then show ?thesis
    by (simp add: np_norm_def)
qed

lemma dot_zero_right:
  assumes "zero_vector e"
  shows "zero_or_nan (fsum (map (\<lambda>(x, y). fmul (f32_value x) (f32_value y)) (zip q e)))"
proof (rule fsum_zero_or_nan, rule ballI)
  fix v
  assume "v \<in> set (map (\<lambda>(x, y). fmul (f32_value x) (f32_value y)) (zip q e))"
  then obtain x y where "(x, y) \<in> set (zip q e)" and v: "v = fmul (f32_value x) (f32_value y)"
    by auto
  then have "y \<in> set e"
    by (auto dest: set_zip_rightD)
  then have "f32_value y = Fin 0"
    using assms by (simp add: zero_vector_def list_all_iff)
  then show "zero_or_nan v"
    by (simp add: v fmul_zero_right)
qed

lemma dot_zero_left:
  assumes "zero_vector q"
  shows "zero_or_nan (fsum (map (\<lambda>(x, y). fmul (f32_value x) (f32_value y)) (zip q e)))"
proof (rule fsum_zero_or_nan, rule ballI)
  fix v
  assume "v \<in> set (map (\<lambda>(x, y). fmul (f32_value x) (f32_value y)) (zip q e))"
  then obtain x y where "(x, y) \<in> set (zip q e)" and v: "v = fmul (f32_value x) (f32_value y)"
    by auto
  then have "x \<in> set q"
    by (auto dest: set_zip_leftD)
  then have "f32_value x = Fin 0"
    using assms by (simp add: zero_vector_def list_all_iff)
  then show "zero_or_nan v"
    by (simp add: v fmul_zero_left)
qed

lemma fdiv_zero_or_nan: "zero_or_nan d \<Longrightarrow> zero_or_nan n \<Longrightarrow> fdiv d n = NaN"
  by (auto simp: zero_or_nan_def)

lemma cosine_zero_vector:
  assumes "length q = length e" and "zero_vector q \<or> zero_vector e"
  shows "cosine_similarity q e = Inr NaN"
proof -
  have d: "zero_or_nan (fsum (map (\<lambda>(x, y). fmul (f32_value x) (f32_value y)) (zip q e)))"
    using assms(2) dot_zero_left dot_zero_right by blast
  have n: "zero_or_nan (fmul (np_norm q) (np_norm e))"
    using assms(2) np_norm_zero fmul_zero_left fmul_zero_right by metis
  show ?thesis
    using assms(1) fdiv_zero_or_nan [OF d n] by (simp add: cosine_similarity_def np_dot_def)
qed

lemma cosine_defined_length: "cosine_similarity q e = Inr x \<Longrightarrow> length q = length e"
  by (auto simp: cosine_similarity_def np_dot_def split: if_splits)

lemma similarities_loop_rel:
  "similarities_loop q embs acc = Inr sims \<Longrightarrow> distinct (map fst acc @ map fst embs) \<Longrightarrow>
   \<exists>sims'. sims = acc @ sims' \<and>
     list_all2 (\<lambda>(k, x) (k', e). k = k' \<and> cosine_similarity q e = Inr x) sims' embs"
proof (induction q embs acc arbitrary: sims rule: similarities_loop.induct)
  case (1 q similarities)
  then show ?case by simp
next
  case (2 q contact_id embedding rest similarities)
  then have "list_all (\<lambda>(k, e). length e = length q) [(contact_id, embedding)]"
    by (auto split: sum.splits dest: cosine_defined_length)
  obtain x where x: "cosine_similarity q embedding = Inr x"
    using 2(2) by (auto split: sum.splits)
  have new: "dict_set similarities contact_id x = similarities @ [(contact_id, x)]"
    using 2(3) by (intro dict_set_append) auto
  have "distinct (map fst (dict_set similarities contact_id x) @ map fst rest)"
    using 2(3) by (simp add: new)
  moreover have "similarities_loop q rest (dict_set similarities contact_id x) = Inr sims"
    using 2(2) x by simp
  ultimately obtain sims' where
    "sims = dict_set similarities contact_id x @ sims'"
    "list_all2 (\<lambda>(k, x) (k', e). k = k' \<and> cosine_similarity q e = Inr x) sims' rest"
    using 2(1) [OF x] by blast
  then show ?case
    using x by (auto simp: new intro!: exI [of _ "(contact_id, x) # sims'"])
qed

lemma sims_lookup:
  "list_all2 (\<lambda>(k, x) (k', e). k = k' \<and> cosine_similarity q e = Inr x) sims embs \<Longrightarrow>
   distinct (map fst embs) \<Longrightarrow> (k, e) \<in> set embs \<Longrightarrow>
   \<exists>x. map_of sims k = Some x \<and> cosine_similarity q e = Inr x"
proof (induction sims embs rule: list_all2_induct)
  case Nil
  then show ?case by simp
next
  case (Cons a sims b embs)
  then show ?case
    by (cases a; cases b) (auto simp: rev_image_eqI)
qed

lemma sims_all_nan:
  "list_all2 (\<lambda>(k, x) (k', e). k = k' \<and> cosine_similarity q e = Inr x) sims embs \<Longrightarrow>
   zero_vector q \<Longrightarrow> \<forall>y\<in>set sims. snd y = NaN"
proof (induction sims embs rule: list_all2_induct)
  case Nil
  then show ?case by simp
next
  case (Cons a sims b embs)
  obtain k x where a: "a = (k, x)" by (cases a)
  obtain k' e where b: "b = (k', e)" by (cases b)
  have "cosine_similarity q e = Inr x"
    using Cons(1) by (simp add: a b)
  then have "x = NaN"
    using cosine_zero_vector [of q e] cosine_defined_length [of q e x] Cons.prems by simp
  then show ?case
    using Cons by (simp add: a)
qed

text \<open>
  C2 (amended). \<open>query\<close> does not guard the division. When the query embedding or the
  stored vector is all zeros, the similarity of the pair is NaN: as the value of the
  formula, as the entry that the similarity loop records for the id, and, for a zero query
  embedding, as the similarity of every result that \<open>query\<close> returns.
\<close>

theorem zero_vector_similarity:
  "(length q = length e \<and> (zero_vector q \<or> zero_vector e) \<longrightarrow> cosine_similarity q e = Inr NaN) \<and>
   (distinct (map fst embs) \<and> similarities_loop q embs [] = Inr sims \<and> (k, e) \<in> set embs \<and>
    (zero_vector q \<or> zero_vector e) \<longrightarrow> map_of sims k = Some NaN) \<and>
   (mirror_keys_ok s \<and> query ev s question top_k = Inr rs \<and> zero_vector (encode ev question) \<longrightarrow>
      list_all (\<lambda>r. res_similarity r = NaN) rs)"
proof (intro conjI impI; elim conjE)
  assume "length q = length e" "zero_vector q \<or> zero_vector e"
  then show "cosine_similarity q e = Inr NaN"
    by (rule cosine_zero_vector)
next
  assume d: "distinct (map fst embs)" and l: "similarities_loop q embs [] = Inr sims"
    and m: "(k, e) \<in> set embs" and z: "zero_vector q \<or> zero_vector e"
  have "list_all2 (\<lambda>(k, x) (k', e). k = k' \<and> cosine_similarity q e = Inr x) sims embs"
    using similarities_loop_rel [OF l] d by simp
  then obtain x where x: "map_of sims k = Some x" "cosine_similarity q e = Inr x"
    using sims_lookup [of q sims embs k e] d m by blast
  have "length q = length e"
    using x(2) by (rule cosine_defined_length)
  then have "cosine_similarity q e = Inr NaN"
    using z by (rule cosine_zero_vector)
  then show "map_of sims k = Some NaN"
    using x by simp
next
  assume ok: "mirror_keys_ok s" and q: "query ev s question top_k = Inr rs"
    and z: "zero_vector (encode ev question)"
  obtain sims where sims: "similarities_loop (encode ev question) (embeddings s) [] = Inr sims"
    and res: "results_loop (contact_data s) (py_take (sorted_desc snd sims) top_k) [] = Inr rs"
    using q by (auto simp: query_def Let_def split: sum.splits)
  have dk: "distinct (map fst (embeddings s))"
    using ok by (auto simp: mirror_keys_ok_def)
  have "list_all2 (\<lambda>(k, x) (k', e). k = k' \<and> cosine_similarity (encode ev question) e = Inr x)
          sims (embeddings s)"
    using similarities_loop_rel [OF sims] dk by simp
  then have nan: "\<forall>y\<in>set sims. snd y = NaN"
    using z by (rule sims_all_nan)
  have sub: "set (py_take (sorted_desc snd sims) top_k) \<subseteq> set sims"
    using set_py_take [of "sorted_desc snd sims" top_k] by (simp add: set_sorted_desc)
  have "map res_similarity rs = map snd (py_take (sorted_desc snd sims) top_k)"
    using results_loop_extends [OF res] by simp
  then have "set (map res_similarity rs) = set (map snd (py_take (sorted_desc snd sims) top_k))"
    by (rule arg_cong)
  then have img: "res_similarity ` set rs = snd ` set (py_take (sorted_desc snd sims) top_k)"
    by simp
  have "res_similarity r = NaN" if "r \<in> set rs" for r
  proof -
    have "res_similarity r \<in> snd ` set (py_take (sorted_desc snd sims) top_k)"
      using that img by blast
    then obtain y where "y \<in> set (py_take (sorted_desc snd sims) top_k)" "res_similarity r = snd y"
      by auto
    then show ?thesis
      using nan sub by auto
  qed
  then show "list_all (\<lambda>r. res_similarity r = NaN) rs"
    by (simp add: list_all_iff)
qed

lemma zero_vec_00: "zero_vector vec_00"
  by (simp add: zero_vector_def vec_00_def f32_value_zero)

text \<open>
  C2 as stated fails: the mirror holds one vector, all zeros; the query embedding is
  \<open>[1, 0]\<close>; the similarity that \<open>query\<close> reports is NaN, not 0.
\<close>

theorem zero_vector_similarity_counterexample:
  "zero_vector vec_00 \<and> embeddings rag_zero = [(2, vec_00)] \<and>
   query env_one rag_zero ''who works in tech'' 3 = Inr [\<lparr>res_contact = bob, res_similarity = NaN\<rparr>] \<and>
   NaN \<noteq> Fin 0"
proof -
  have "similarities_loop (encode env_one ''who works in tech'') (embeddings rag_zero) [] =
      Inr [(2, NaN)]"
    by (simp add: env_one_def rag_zero_def cos_10_00)
  then have "query env_one rag_zero ''who works in tech'' 3 =
      Inr [\<lparr>res_contact = bob, res_similarity = NaN\<rparr>]"
    by (simp add: query_def sorted_desc_def py_take_def) (simp add: rag_zero_def dict_get_def)
  then show ?thesis
    using zero_vec_00 by (simp add: rag_zero_def)
qed


theorem zero_vector_similarity_witness:
  "length vec_10 = length vec_00 \<and> zero_vector vec_00 \<and>
   cosine_similarity vec_10 vec_00 = Inr NaN \<and>
   distinct (map fst [(2::int, vec_00)]) \<and>
   similarities_loop vec_10 [(2, vec_00)] [] = Inr [(2, NaN)] \<and>
   map_of [(2::int, NaN)] 2 = Some NaN \<and>
   mirror_keys_ok rag_two \<and> zero_vector (encode env_zero ''who works in tech'') \<and>
   query env_zero rag_two ''who works in tech'' 2 =
     Inr [\<lparr>res_contact = alice, res_similarity = NaN\<rparr>, \<lparr>res_contact = bob, res_similarity = NaN\<rparr>] \<and>
   list_all (\<lambda>r. res_similarity r = NaN)
     [\<lparr>res_contact = alice, res_similarity = NaN\<rparr>, \<lparr>res_contact = bob, res_similarity = NaN\<rparr>]"
proof -
  have len: "length vec_10 = length vec_00"
    by (simp add: vec_10_def vec_00_def)
  have a: "cosine_similarity vec_10 vec_00 = Inr NaN"
    using zero_vector_similarity [where q = vec_10 and e = vec_00] len zero_vec_00 by simp
  have l: "similarities_loop vec_10 [(2, vec_00)] [] = Inr [(2, NaN)]"
    by (simp add: a)
  have b: "map_of [(2::int, NaN)] 2 = Some NaN"
    using zero_vector_similarity
      [where q = vec_10 and e = vec_00 and embs = "[(2, vec_00)]" and sims = "[(2, NaN)]" and k = 2]
      l zero_vec_00
    by simp
  have z: "zero_vector (encode env_zero ''who works in tech'')"
    by (simp add: env_zero_def zero_vec_00)
  have c1: "cosine_similarity vec_00 vec_10 = Inr NaN"
    using zero_vector_similarity [where q = vec_00 and e = vec_10] len zero_vec_00 by simp
  have c2: "cosine_similarity vec_00 vec_01 = Inr NaN"
    using zero_vector_similarity [where q = vec_00 and e = vec_01] zero_vec_00
    by (simp add: vec_00_def vec_01_def)
  have "similarities_loop (encode env_zero ''who works in tech'') (embeddings rag_two) [] =
      Inr [(1, NaN), (2, NaN)]"
    by (simp add: env_zero_def rag_two_def c1 c2)
  then have q: "query env_zero rag_two ''who works in tech'' 2 =
      Inr [\<lparr>res_contact = alice, res_similarity = NaN\<rparr>, \<lparr>res_contact = bob, res_similarity = NaN\<rparr>]"
    by (simp add: query_def sorted_desc_def py_take_def) (simp add: rag_two_def dict_get_def)
  have d: "list_all (\<lambda>r. res_similarity r = NaN)
     [\<lparr>res_contact = alice, res_similarity = NaN\<rparr>, \<lparr>res_contact = bob, res_similarity = NaN\<rparr>]"
    using zero_vector_similarity [where s = rag_two and ev = env_zero
        and question = "''who works in tech''" and top_k = 2] rag_two_keys z q
    by blast
  show ?thesis
    using len zero_vec_00 a l b rag_two_keys z q d by simp
qed


end
